theory Spec2Isabelle
  imports Main "HOL-Library.Char_ord" "HOL-Library.List_Lexorder" "HOL-Library.Sublist"
begin

section \<open>Data model of collectmacrospreprocessorcallbacks.h\<close>

text \<open>
  The collector \<^verbatim>\<open>CollectMacrosPreprocessorCallbacks\<close> receives preprocessing events from
  the front-end and fills four containers owned by its caller. The front-end's objects are
  modelled by the observations the callbacks make of them.
\<close>

type_synonym FilePathId = int
type_synonym SymbolIndex = nat

datatype SymbolType = MacroDefinition | MacroUsage | MacroUndefinition

text \<open>
  A \<^verbatim>\<open>clang::MacroInfo\<close> object: the callbacks use its address (as the symbol index) and
  its header-guard flag.
\<close>

record MacroInfo =
  address :: nat
  isUsedForHeaderGuard :: bool

text \<open>
  A \<^verbatim>\<open>clang::MacroDirective\<close>: what \<^verbatim>\<open>getMacroInfo()\<close> returns on it (a nullable
  pointer) and the nullable link \<^verbatim>\<open>getPrevious()\<close> to the directive before it.
\<close>

datatype MacroDirective =
  MacroDirective (getMacroInfo: "MacroInfo option") (getPrevious: "MacroDirective option")

text \<open>A \<^verbatim>\<open>clang::MacroDefinition\<close>, as far as the callbacks read it.\<close>

record MacroDefinition =
  definitionMacroInfo :: "MacroInfo option"
  getLocalDirective :: "MacroDirective option"

text \<open>
  A \<^verbatim>\<open>clang::SourceLocation\<close> is either a position in a file or a position inside a
  macro expansion; \<^verbatim>\<open>isFileID()\<close> tells them apart.
\<close>

datatype SourceLocation = FileLoc nat | MacroLoc nat

fun isFileID :: "SourceLocation \<Rightarrow> bool" where
  "isFileID (FileLoc _) = True"
| "isFileID (MacroLoc _) = False"

record Token =
  getName :: string
  getLocation :: SourceLocation

record UsedDefine =
  defineName :: string
  filePathId :: FilePathId

record SymbolEntry =
  usr :: string
  symbolName :: string

record SourceLocationEntry =
  symbolId :: SymbolIndex
  entryFilePathId :: FilePathId
  lineColumn :: "nat \<times> nat"
  symbolType :: SymbolType

text \<open>
  The services the collector calls and whose code is outside this file are parameters of the
  model: the source manager and file path cache behind \<^verbatim>\<open>filePathId(location)\<close>,
  \<^verbatim>\<open>m_filePathCache.filePathId(path)\<close>, \<^verbatim>\<open>FilePathId::isValid()\<close> and
  \<^verbatim>\<open>lineColum(location)\<close>, the generator \<^verbatim>\<open>generateUSR(name, location)\<close>, and the
  preprocessor's lookup \<^verbatim>\<open>getMacroInfo(&getIdentifierTable().get(name))\<close>.
\<close>

record Services =
  locationFilePathId :: "SourceLocation \<Rightarrow> FilePathId"
  cacheFilePathId :: "string \<Rightarrow> FilePathId"
  isValid :: "FilePathId \<Rightarrow> bool"
  lineColum :: "SourceLocation \<Rightarrow> nat \<times> nat"
  generateUSR :: "string \<Rightarrow> SourceLocation \<Rightarrow> string option"
  preprocessorMacroInfo :: "string \<Rightarrow> MacroInfo option"

text \<open>
  The members of the collector. \<^verbatim>\<open>m_symbolEntries\<close> is a hash map from symbol index to
  entry, kept here as the list of its rows so that a second row for one key would be visible.
\<close>

record Collector =
  maybeUsedDefines :: "UsedDefine list"
  symbolEntries :: "(SymbolIndex \<times> SymbolEntry) list"
  sourceLocationEntries :: "SourceLocationEntry list"
  sourceFiles :: "FilePathId list"
  usedDefines :: "UsedDefine list"
  skipInclude :: bool

definition emptyCollector :: Collector where
  "emptyCollector = \<lparr>maybeUsedDefines = [], symbolEntries = [], sourceLocationEntries = [],
     sourceFiles = [], usedDefines = [], skipInclude = False\<rparr>"

section \<open>Library algorithms used by the collector\<close>

text \<open>
  Modelled from the spec: the comparison operators of \<^verbatim>\<open>UsedDefine\<close> (declared in
  useddefines.h, which is not among the sources). The ordering is by name, in the
  lexicographic order of the identifier, and entries with equal name are duplicates
  regardless of location.
\<close>

definition less_UsedDefine :: "UsedDefine \<Rightarrow> UsedDefine \<Rightarrow> bool" where
  "less_UsedDefine a b = (defineName a < defineName b)"

definition notEqual_UsedDefine :: "UsedDefine \<Rightarrow> UsedDefine \<Rightarrow> bool" where
  "notEqual_UsedDefine a b = (defineName a \<noteq> defineName b)"

text \<open>
  \<^verbatim>\<open>std::lower_bound\<close>: the furthest position such that every element before it is less
  than the value.
\<close>

definition lower_bound :: "UsedDefine list \<Rightarrow> UsedDefine \<Rightarrow> nat" where
  "lower_bound xs v = length (takeWhile (\<lambda>e. less_UsedDefine e v) xs)"

text \<open>\<^verbatim>\<open>std::find\<close>: the position of the first element equal to the value, or the end.\<close>

definition std_find :: "'a list \<Rightarrow> 'a \<Rightarrow> nat" where
  "std_find xs v = length (takeWhile (\<lambda>e. e \<noteq> v) xs)"

text \<open>\<^verbatim>\<open>vector::insert(position, value)\<close>.\<close>

definition vector_insert :: "nat \<Rightarrow> 'a \<Rightarrow> 'a list \<Rightarrow> 'a list" where
  "vector_insert pos v xs = take pos xs @ v # drop pos xs"

text \<open>
  \<^verbatim>\<open>std::inplace_merge\<close> of two consecutive ranges: a stable merge, an element of the
  second range goes first only when it is less than the element of the first range.
\<close>

fun inplace_merge :: "UsedDefine list \<Rightarrow> UsedDefine list \<Rightarrow> UsedDefine list" where
  "inplace_merge [] ys = ys"
| "inplace_merge xs [] = xs"
| "inplace_merge (x # xs) (y # ys) =
     (if less_UsedDefine y x then y # inplace_merge (x # xs) ys
      else x # inplace_merge xs (y # ys))"

text \<open>
  \<^verbatim>\<open>std::stable_partition\<close> followed by \<^verbatim>\<open>erase\<close> from the partition point keeps the
  elements that satisfy the predicate, in their order.
\<close>

definition partition_erase :: "('a \<Rightarrow> bool) \<Rightarrow> 'a list \<Rightarrow> 'a list" where
  "partition_erase keep xs = filter keep xs"

text \<open>
  Modelled from the spec: \<^verbatim>\<open>defineName.contains("EXPORT")\<close>, a member of the string
  view class, which is not among the sources: the name contains the text as a substring.
\<close>

fun contains :: "string \<Rightarrow> string \<Rightarrow> bool" where
  "contains [] sub = (sub = [])"
| "contains (c # cs) sub = (prefix sub (c # cs) \<or> contains cs sub)"

text \<open>
  \<^verbatim>\<open>unordered_map::find\<close> and \<^verbatim>\<open>unordered_map::emplace\<close> on the rows of the table;
  emplace adds nothing when the key is present.
\<close>

definition map_find :: "(SymbolIndex \<times> SymbolEntry) list \<Rightarrow> SymbolIndex \<Rightarrow> SymbolEntry option" where
  "map_find rows k = map_of rows k"

definition map_emplace ::
  "SymbolIndex \<Rightarrow> SymbolEntry \<Rightarrow> (SymbolIndex \<times> SymbolEntry) list \<Rightarrow> (SymbolIndex \<times> SymbolEntry) list" where
  "map_emplace k v rows = (if map_of rows k = None then rows @ [(k, v)] else rows)"

section \<open>The callbacks\<close>

text \<open>
  Modelled from the spec: \<^verbatim>\<open>toSymbolIndex(pointer)\<close>, declared in symbolsvisitorbase.h,
  which is not among the sources: the opaque, stable key of the macro info object, here its
  address.
\<close>

definition toSymbolIndex :: "MacroInfo \<Rightarrow> SymbolIndex" where
  "toSymbolIndex macroInfo = address macroInfo"

text \<open>The do-while loop of \<^verbatim>\<open>firstMacroInfo\<close>: follow the previous links until none is left.\<close>

fun firstDirective :: "MacroDirective \<Rightarrow> MacroDirective" where
  "firstDirective (MacroDirective info None) = MacroDirective info None"
| "firstDirective (MacroDirective info (Some previousDirective)) = firstDirective previousDirective"

definition firstMacroInfo :: "MacroDirective option \<Rightarrow> MacroInfo option" where
  "firstMacroInfo macroDirective =
     (case macroDirective of
        Some d \<Rightarrow> getMacroInfo (firstDirective d)
      | None \<Rightarrow> None)"

definition addSourceFile :: "Services \<Rightarrow> string \<Rightarrow> Collector \<Rightarrow> Collector" where
  "addSourceFile svc file s =
     (let fileId = cacheFilePathId svc file;
          found = std_find (sourceFiles s) fileId
      in if found = length (sourceFiles s) \<or> sourceFiles s ! found \<noteq> fileId
         then s\<lparr>sourceFiles := vector_insert found fileId (sourceFiles s)\<rparr>
         else s)"

definition InclusionDirective :: "Services \<Rightarrow> string option \<Rightarrow> Collector \<Rightarrow> Collector" where
  "InclusionDirective svc file s =
     (let s1 = (case file of
                  Some f \<Rightarrow> if \<not> skipInclude s then addSourceFile svc f s else s
                | None \<Rightarrow> s)
      in s1\<lparr>skipInclude := False\<rparr>)"

definition FileNotFound :: "Collector \<Rightarrow> bool \<times> Collector" where
  "FileNotFound s = (True, s\<lparr>skipInclude := True\<rparr>)"

definition addUsedDefine_static :: "UsedDefine \<Rightarrow> UsedDefine list \<Rightarrow> UsedDefine list" where
  "addUsedDefine_static usedDefine defines =
     (let found = lower_bound defines usedDefine
      in if found = length defines \<or> notEqual_UsedDefine (defines ! found) usedDefine
         then vector_insert found usedDefine defines
         else defines)"

definition addUsedDefine :: "Services \<Rightarrow> Token \<Rightarrow> MacroDefinition \<Rightarrow> Collector \<Rightarrow> Collector" where
  "addUsedDefine svc macroNameToken macroDefinition s =
     (let usedDefine = \<lparr>defineName = getName macroNameToken,
                        filePathId = locationFilePathId svc (getLocation macroNameToken)\<rparr>
      in case definitionMacroInfo macroDefinition of
           Some _ \<Rightarrow> s\<lparr>usedDefines := addUsedDefine_static usedDefine (usedDefines s)\<rparr>
         | None \<Rightarrow> s\<lparr>maybeUsedDefines := addUsedDefine_static usedDefine (maybeUsedDefines s)\<rparr>)"

definition addMacroAsSymbol ::
  "Services \<Rightarrow> Token \<Rightarrow> MacroInfo option \<Rightarrow> SymbolType \<Rightarrow> Collector \<Rightarrow> Collector" where
  "addMacroAsSymbol svc macroNameToken macroInfo symType s =
     (let sourceLocation = getLocation macroNameToken
      in case macroInfo of
           None \<Rightarrow> s
         | Some info \<Rightarrow>
             if isFileID sourceLocation then
               (let fileId = locationFilePathId svc sourceLocation
                in if isValid svc fileId then
                     (let macroName = getName macroNameToken;
                          globalId = toSymbolIndex info;
                          s1 = (case map_find (symbolEntries s) globalId of
                                  None \<Rightarrow>
                                    (case generateUSR svc macroName sourceLocation of
                                       Some u \<Rightarrow>
                                         s\<lparr>symbolEntries :=
                                             map_emplace globalId \<lparr>usr = u, symbolName = macroName\<rparr>
                                               (symbolEntries s)\<rparr>
                                     | None \<Rightarrow> s)
                                | Some _ \<Rightarrow> s)
                      in s1\<lparr>sourceLocationEntries :=
                              sourceLocationEntries s1 @
                                [\<lparr>symbolId = globalId, entryFilePathId = fileId,
                                  lineColumn = lineColum svc sourceLocation,
                                  symbolType = symType\<rparr>]\<rparr>)
                   else s)
             else s)"

definition Ifndef :: "Services \<Rightarrow> Token \<Rightarrow> MacroDefinition \<Rightarrow> Collector \<Rightarrow> Collector" where
  "Ifndef svc macroNameToken macroDefinition s =
     addMacroAsSymbol svc macroNameToken (firstMacroInfo (getLocalDirective macroDefinition)) MacroUsage
       (addUsedDefine svc macroNameToken macroDefinition s)"

definition Ifdef :: "Services \<Rightarrow> Token \<Rightarrow> MacroDefinition \<Rightarrow> Collector \<Rightarrow> Collector" where
  "Ifdef svc macroNameToken macroDefinition s =
     addMacroAsSymbol svc macroNameToken (firstMacroInfo (getLocalDirective macroDefinition)) MacroUsage
       (addUsedDefine svc macroNameToken macroDefinition s)"

definition Defined :: "Services \<Rightarrow> Token \<Rightarrow> MacroDefinition \<Rightarrow> Collector \<Rightarrow> Collector" where
  "Defined svc macroNameToken macroDefinition s =
     addMacroAsSymbol svc macroNameToken (firstMacroInfo (getLocalDirective macroDefinition)) MacroUsage
       (addUsedDefine svc macroNameToken macroDefinition s)"

definition MacroDefined :: "Services \<Rightarrow> Token \<Rightarrow> MacroDirective option \<Rightarrow> Collector \<Rightarrow> Collector" where
  "MacroDefined svc macroNameToken macroDirective s =
     addMacroAsSymbol svc macroNameToken (firstMacroInfo macroDirective) MacroDefinition s"

definition MacroUndefined :: "Services \<Rightarrow> Token \<Rightarrow> MacroDefinition \<Rightarrow> Collector \<Rightarrow> Collector" where
  "MacroUndefined svc macroNameToken macroDefinition s =
     addMacroAsSymbol svc macroNameToken (firstMacroInfo (getLocalDirective macroDefinition))
       MacroUndefinition s"

definition MacroExpands :: "Services \<Rightarrow> Token \<Rightarrow> MacroDefinition \<Rightarrow> Collector \<Rightarrow> Collector" where
  "MacroExpands svc macroNameToken macroDefinition s =
     addMacroAsSymbol svc macroNameToken (firstMacroInfo (getLocalDirective macroDefinition)) MacroUsage
       (addUsedDefine svc macroNameToken macroDefinition s)"

definition filterOutHeaderGuards :: "Services \<Rightarrow> Collector \<Rightarrow> Collector" where
  "filterOutHeaderGuards svc s =
     s\<lparr>maybeUsedDefines :=
         partition_erase
           (\<lambda>usedDefine. case preprocessorMacroInfo svc (defineName usedDefine) of
                            None \<Rightarrow> True
                          | Some macroInfo \<Rightarrow> \<not> isUsedForHeaderGuard macroInfo)
           (maybeUsedDefines s)\<rparr>"

definition filterOutExports :: "Collector \<Rightarrow> Collector" where
  "filterOutExports s =
     s\<lparr>usedDefines :=
         partition_erase (\<lambda>usedDefine. \<not> contains (defineName usedDefine) ''EXPORT'')
           (usedDefines s)\<rparr>"

definition mergeUsedDefines :: "Collector \<Rightarrow> Collector" where
  "mergeUsedDefines s = s\<lparr>usedDefines := inplace_merge (usedDefines s) (maybeUsedDefines s)\<rparr>"

definition EndOfMainFile :: "Services \<Rightarrow> Collector \<Rightarrow> Collector" where
  "EndOfMainFile svc s = filterOutExports (mergeUsedDefines (filterOutHeaderGuards svc s))"

section \<open>A pass over one translation unit\<close>

text \<open>
  The events the front-end sends before the end of the main file, and the pass: the
  callbacks in the order of the events, on containers that start empty, then
  \<^verbatim>\<open>EndOfMainFile\<close>.
\<close>

datatype Event =
    OnInclusionDirective "string option"
  | OnFileNotFound
  | OnIfndef Token MacroDefinition
  | OnIfdef Token MacroDefinition
  | OnDefined Token MacroDefinition
  | OnMacroDefined Token "MacroDirective option"
  | OnMacroUndefined Token MacroDefinition
  | OnMacroExpands Token MacroDefinition

fun dispatch :: "Services \<Rightarrow> Collector \<Rightarrow> Event \<Rightarrow> Collector" where
  "dispatch svc s (OnInclusionDirective file) = InclusionDirective svc file s"
| "dispatch svc s OnFileNotFound = snd (FileNotFound s)"
| "dispatch svc s (OnIfndef t d) = Ifndef svc t d s"
| "dispatch svc s (OnIfdef t d) = Ifdef svc t d s"
| "dispatch svc s (OnDefined t d) = Defined svc t d s"
| "dispatch svc s (OnMacroDefined t d) = MacroDefined svc t d s"
| "dispatch svc s (OnMacroUndefined t d) = MacroUndefined svc t d s"
| "dispatch svc s (OnMacroExpands t d) = MacroExpands svc t d s"

definition collect :: "Services \<Rightarrow> Event list \<Rightarrow> Collector" where
  "collect svc events = foldl (dispatch svc) emptyCollector events"

definition pass :: "Services \<Rightarrow> Event list \<Rightarrow> Collector" where
  "pass svc events = EndOfMainFile svc (collect svc events)"

section \<open>Notions used to state the properties\<close>

text \<open>
  The directives of one macro, from the given directive back to the earliest one, along the
  previous links.
\<close>

fun directiveChain :: "MacroDirective \<Rightarrow> MacroDirective list" where
  "directiveChain (MacroDirective info None) = [MacroDirective info None]"
| "directiveChain (MacroDirective info (Some previousDirective)) =
     MacroDirective info (Some previousDirective) # directiveChain previousDirective"

text \<open>Both used-define vectors are strictly ascending by name.\<close>

definition usedDefinesSorted :: "Collector \<Rightarrow> bool" where
  "usedDefinesSorted s \<longleftrightarrow>
     sorted_wrt (<) (map defineName (usedDefines s)) \<and>
     sorted_wrt (<) (map defineName (maybeUsedDefines s))"

text \<open>
  The occurrences that a callback appends for a name token, a macro info and a symbol type:
  one, keyed by the symbol index of the macro info, when the macro info is present, the
  location is a file location and its file id is valid, and none otherwise.
\<close>

definition occurrencesOf ::
  "Services \<Rightarrow> Token \<Rightarrow> MacroInfo option \<Rightarrow> SymbolType \<Rightarrow> SourceLocationEntry list" where
  "occurrencesOf svc t macroInfo ty =
     (case macroInfo of
        None \<Rightarrow> []
      | Some info \<Rightarrow>
          if isFileID (getLocation t) \<and> isValid svc (locationFilePathId svc (getLocation t))
          then [\<lparr>symbolId = toSymbolIndex info,
                 entryFilePathId = locationFilePathId svc (getLocation t),
                 lineColumn = lineColum svc (getLocation t),
                 symbolType = ty\<rparr>]
          else [])"

text \<open>
  The directive an event carries: the directive of a definition event, the local directive of
  the macro definition of a test, expansion or undefinition event.
\<close>

fun eventDirective :: "Event \<Rightarrow> MacroDirective option" where
  "eventDirective (OnInclusionDirective file) = None"
| "eventDirective OnFileNotFound = None"
| "eventDirective (OnIfndef t d) = getLocalDirective d"
| "eventDirective (OnIfdef t d) = getLocalDirective d"
| "eventDirective (OnDefined t d) = getLocalDirective d"
| "eventDirective (OnMacroDefined t d) = d"
| "eventDirective (OnMacroUndefined t d) = getLocalDirective d"
| "eventDirective (OnMacroExpands t d) = getLocalDirective d"

text \<open>Every occurrence and every row of the table is keyed by the index of the macro info.\<close>

definition keyedBy :: "MacroInfo option \<Rightarrow> Collector \<Rightarrow> bool" where
  "keyedBy macroInfo s \<longleftrightarrow>
     list_all (\<lambda>e. Some (symbolId e) = map_option toSymbolIndex macroInfo) (sourceLocationEntries s) \<and>
     list_all (\<lambda>r. Some (fst r) = map_option toSymbolIndex macroInfo) (symbolEntries s)"

section \<open>Concrete inputs\<close>

text \<open>
  Services for the examples: a file location \<open>n\<close> lies in file \<open>n\<close> at line \<open>n\<close>, a
  macro-expansion location has no valid file, the generator fails at location 1 only, and the
  preprocessor knows \<^verbatim>\<open>GUARD_H\<close> as a header guard and \<^verbatim>\<open>X\<close> as an ordinary macro.
\<close>

definition infoX :: MacroInfo where
  "infoX = \<lparr>address = 7, isUsedForHeaderGuard = False\<rparr>"

definition infoGuard :: MacroInfo where
  "infoGuard = \<lparr>address = 9, isUsedForHeaderGuard = True\<rparr>"

definition exampleServices :: Services where
  "exampleServices =
     \<lparr>locationFilePathId = (\<lambda>loc. case loc of FileLoc n \<Rightarrow> int n | MacroLoc n \<Rightarrow> - 1),
      cacheFilePathId = (\<lambda>path. if path = ''a.h'' then 1 else if path = ''b.h'' then 2 else 3),
      isValid = (\<lambda>fileId. 0 \<le> fileId),
      lineColum = (\<lambda>loc. case loc of FileLoc n \<Rightarrow> (n, 1) | MacroLoc n \<Rightarrow> (0, 0)),
      generateUSR = (\<lambda>name loc. if loc = FileLoc 1 then None else Some (''c:@macro@'' @ name)),
      preprocessorMacroInfo =
        (\<lambda>name. if name = ''GUARD_H'' then Some infoGuard
                 else if name = ''X'' then Some infoX
                 else None)\<rparr>"

definition tokenAt :: "string \<Rightarrow> nat \<Rightarrow> Token" where
  "tokenAt name pos = \<lparr>getName = name, getLocation = FileLoc pos\<rparr>"

definition tokenInExpansion :: "string \<Rightarrow> nat \<Rightarrow> Token" where
  "tokenInExpansion name pos = \<lparr>getName = name, getLocation = MacroLoc pos\<rparr>"

definition undefinedMacro :: MacroDefinition where
  "undefinedMacro = \<lparr>definitionMacroInfo = None, getLocalDirective = None\<rparr>"

definition definedMacro :: "MacroInfo \<Rightarrow> MacroDefinition" where
  "definedMacro info =
     \<lparr>definitionMacroInfo = Some info, getLocalDirective = Some (MacroDirective (Some info) None)\<rparr>"

text \<open>
  \<^verbatim>\<open>#ifdef X\<close> before any definition of \<^verbatim>\<open>X\<close>, then \<^verbatim>\<open>#define X\<close>, then a use of
  \<^verbatim>\<open>X\<close>.
\<close>

definition testedThenExpanded :: "Event list" where
  "testedThenExpanded =
     [OnIfdef (tokenAt ''X'' 1) undefinedMacro,
      OnMacroDefined (tokenAt ''X'' 2) (Some (MacroDirective (Some infoX) None)),
      OnMacroExpands (tokenAt ''X'' 3) (definedMacro infoX)]"

text \<open>
  A header with its guard, a macro \<^verbatim>\<open>A\<close> that is defined, tested and expanded, a test of
  the unknown macro \<^verbatim>\<open>B\<close>, and an inclusion.
\<close>

definition guardedHeader :: "Event list" where
  "guardedHeader =
     [OnIfndef (tokenAt ''GUARD_H'' 1) undefinedMacro,
      OnMacroDefined (tokenAt ''GUARD_H'' 2) (Some (MacroDirective (Some infoGuard) None)),
      OnMacroDefined (tokenAt ''A'' 3)
        (Some (MacroDirective (Some \<lparr>address = 11, isUsedForHeaderGuard = False\<rparr>) None)),
      OnIfdef (tokenAt ''A'' 4) (definedMacro \<lparr>address = 11, isUsedForHeaderGuard = False\<rparr>),
      OnDefined (tokenAt ''B'' 5) undefinedMacro,
      OnMacroExpands (tokenAt ''A'' 6) (definedMacro \<lparr>address = 11, isUsedForHeaderGuard = False\<rparr>),
      OnInclusionDirective (Some ''x.h'')]"

text \<open>The definition of \<^verbatim>\<open>X\<close> at location 1, where the generator fails, then a use.\<close>

definition definedAtFailingLocation :: Event where
  "definedAtFailingLocation =
     OnMacroDefined (tokenAt ''X'' 1) (Some (MacroDirective (Some infoX) None))"

definition failedThenUsed :: "Event list" where
  "failedThenUsed = [definedAtFailingLocation, OnMacroExpands (tokenAt ''X'' 3) (definedMacro infoX)]"

text \<open>Two expansions, of an export macro and of a feature macro.\<close>

definition exportAndFeature :: "Event list" where
  "exportAndFeature =
     [OnMacroExpands (tokenAt ''MYLIB_EXPORT'' 2)
        (definedMacro \<lparr>address = 21, isUsedForHeaderGuard = False\<rparr>),
      OnMacroExpands (tokenAt ''MYLIB_FEATURE'' 3)
        (definedMacro \<lparr>address = 22, isUsedForHeaderGuard = False\<rparr>)]"

text \<open>A macro defined twice: the second directive links back to the first.\<close>

definition redefinedTwice :: MacroDirective where
  "redefinedTwice =
     MacroDirective (Some \<lparr>address = 32, isUsedForHeaderGuard = False\<rparr>)
       (Some (MacroDirective (Some \<lparr>address = 31, isUsedForHeaderGuard = False\<rparr>) None))"

text \<open>
  The events of that macro: defined, expanded, defined again, tested, undefined.
\<close>

definition redefinitionEvents :: "Event list" where
  "redefinitionEvents =
     [OnMacroDefined (tokenAt ''M'' 2)
        (Some (MacroDirective (Some \<lparr>address = 31, isUsedForHeaderGuard = False\<rparr>) None)),
      OnMacroExpands (tokenAt ''M'' 3)
        \<lparr>definitionMacroInfo = Some \<lparr>address = 31, isUsedForHeaderGuard = False\<rparr>,
         getLocalDirective =
           Some (MacroDirective (Some \<lparr>address = 31, isUsedForHeaderGuard = False\<rparr>) None)\<rparr>,
      OnMacroDefined (tokenAt ''M'' 4) (Some redefinedTwice),
      OnIfdef (tokenAt ''M'' 5)
        \<lparr>definitionMacroInfo = Some \<lparr>address = 32, isUsedForHeaderGuard = False\<rparr>,
         getLocalDirective = Some redefinedTwice\<rparr>,
      OnMacroUndefined (tokenAt ''M'' 6)
        \<lparr>definitionMacroInfo = Some \<lparr>address = 32, isUsedForHeaderGuard = False\<rparr>,
         getLocalDirective = Some redefinedTwice\<rparr>]"

section \<open>Evaluation rules\<close>

lemmas callback_defs =
  collect_def pass_def emptyCollector_def EndOfMainFile_def filterOutExports_def
  mergeUsedDefines_def filterOutHeaderGuards_def partition_erase_def
  InclusionDirective_def FileNotFound_def addSourceFile_def std_find_def vector_insert_def
  Ifndef_def Ifdef_def Defined_def MacroDefined_def MacroUndefined_def MacroExpands_def
  addUsedDefine_def addUsedDefine_static_def lower_bound_def less_UsedDefine_def
  notEqual_UsedDefine_def addMacroAsSymbol_def map_find_def map_emplace_def toSymbolIndex_def
  firstMacroInfo_def Let_def

lemmas example_defs =
  exampleServices_def tokenAt_def tokenInExpansion_def undefinedMacro_def definedMacro_def
  infoX_def infoGuard_def

section \<open>The sorted insertion of used defines\<close>

lemma addUsedDefine_static_Nil: "addUsedDefine_static v [] = [v]"
  by (simp add: addUsedDefine_static_def lower_bound_def vector_insert_def)

lemma addUsedDefine_static_Cons:
  "addUsedDefine_static v (x # xs) =
     (if less_UsedDefine x v then x # addUsedDefine_static v xs
      else if notEqual_UsedDefine x v then v # x # xs else x # xs)"
  by (simp add: addUsedDefine_static_def lower_bound_def vector_insert_def Let_def)

lemma addUsedDefine_static_names:
  "defineName ` set (addUsedDefine_static v xs) = insert (defineName v) (defineName ` set xs)"
  by (induction xs)
     (auto simp: addUsedDefine_static_Nil addUsedDefine_static_Cons notEqual_UsedDefine_def)

lemma addUsedDefine_static_sorted:
  "sorted_wrt (<) (map defineName xs) \<Longrightarrow>
   sorted_wrt (<) (map defineName (addUsedDefine_static v xs))"
proof (induction xs)
  case Nil
  show ?case by (simp add: addUsedDefine_static_Nil)
next
  case (Cons x xs)
  have above: "\<forall>y \<in> set xs. defineName x < defineName y"
    using Cons.prems by auto
  have rest: "sorted_wrt (<) (map defineName (addUsedDefine_static v xs))"
    using Cons by simp
  show ?case
  proof (cases "less_UsedDefine x v")
    case True
    have "\<forall>n \<in> defineName ` set (addUsedDefine_static v xs). defineName x < n"
      using above True by (auto simp: addUsedDefine_static_names less_UsedDefine_def)
    then show ?thesis using True rest by (auto simp: addUsedDefine_static_Cons)
  next
    case False
    show ?thesis
    proof (cases "notEqual_UsedDefine x v")
      case True
      then have "defineName v < defineName x"
        using False by (auto simp: less_UsedDefine_def notEqual_UsedDefine_def)
      then show ?thesis using False True Cons.prems above
        by (auto simp: addUsedDefine_static_Cons)
    next
      case same: False
      then show ?thesis using False Cons.prems by (simp add: addUsedDefine_static_Cons)
    qed
  qed
qed

lemma addMacroAsSymbol_defines:
  "usedDefines (addMacroAsSymbol svc t mi ty s) = usedDefines s"
  "maybeUsedDefines (addMacroAsSymbol svc t mi ty s) = maybeUsedDefines s"
  by (simp_all add: addMacroAsSymbol_def Let_def split: option.splits)

lemma addUsedDefine_sorted:
  "usedDefinesSorted s \<Longrightarrow> usedDefinesSorted (addUsedDefine svc t d s)"
  by (simp add: usedDefinesSorted_def addUsedDefine_def Let_def addUsedDefine_static_sorted
           split: option.splits)

lemma addUsedDefine_records:
  "getName t \<in> defineName ` set (if definitionMacroInfo d = None
                                   then maybeUsedDefines (addUsedDefine svc t d s)
                                   else usedDefines (addUsedDefine svc t d s))"
  by (auto simp: addUsedDefine_def Let_def addUsedDefine_static_names split: option.splits)

lemma usage_sorted:
  "usedDefinesSorted s \<Longrightarrow>
   usedDefinesSorted (addMacroAsSymbol svc t mi ty (addUsedDefine svc t' d s))"
  using addUsedDefine_sorted [of s svc t' d]
  by (simp add: usedDefinesSorted_def addMacroAsSymbol_defines)

lemma dispatch_sorted: "usedDefinesSorted s \<Longrightarrow> usedDefinesSorted (dispatch svc s ev)"
proof (cases ev)
  case (OnInclusionDirective f)
  assume "usedDefinesSorted s"
  then show ?thesis using OnInclusionDirective
    by (simp add: usedDefinesSorted_def InclusionDirective_def addSourceFile_def Let_def
             split: option.splits)
next
  case OnFileNotFound
  assume "usedDefinesSorted s"
  then show ?thesis using OnFileNotFound by (simp add: usedDefinesSorted_def FileNotFound_def)
next
  case (OnMacroDefined t d)
  assume "usedDefinesSorted s"
  then show ?thesis using OnMacroDefined
    by (simp add: usedDefinesSorted_def MacroDefined_def addMacroAsSymbol_defines)
next
  case (OnMacroUndefined t d)
  assume "usedDefinesSorted s"
  then show ?thesis using OnMacroUndefined
    by (simp add: usedDefinesSorted_def MacroUndefined_def addMacroAsSymbol_defines)
qed (simp_all add: Ifndef_def Ifdef_def Defined_def MacroExpands_def usage_sorted)

lemma foldl_dispatch_sorted:
  "usedDefinesSorted s \<Longrightarrow> usedDefinesSorted (foldl (dispatch svc) s events)"
  by (induction events arbitrary: s) (simp_all add: dispatch_sorted)

lemma collect_sorted: "usedDefinesSorted (collect svc events)"
  unfolding collect_def
  by (rule foldl_dispatch_sorted) (simp add: usedDefinesSorted_def emptyCollector_def)

section \<open>Merge and filters\<close>

lemma inplace_merge_set: "set (inplace_merge xs ys) = set xs \<union> set ys"
  by (induction xs ys rule: inplace_merge.induct) auto

lemma inplace_merge_sorted:
  "sorted (map defineName xs) \<Longrightarrow> sorted (map defineName ys) \<Longrightarrow>
   sorted (map defineName (inplace_merge xs ys))"
proof (induction xs ys rule: inplace_merge.induct)
  case (3 x xs y ys)
  then show ?case
    by (auto simp: inplace_merge_set less_UsedDefine_def)
qed simp_all

lemma inplace_merge_strict:
  "sorted_wrt (<) (map defineName xs) \<Longrightarrow> sorted_wrt (<) (map defineName ys) \<Longrightarrow>
   defineName ` set xs \<inter> defineName ` set ys = {} \<Longrightarrow>
   sorted_wrt (<) (map defineName (inplace_merge xs ys))"
proof (induction xs ys rule: inplace_merge.induct)
  case (3 x xs y ys)
  have ne: "defineName x \<noteq> defineName y" using "3.prems"(3) by auto
  show ?case
  proof (cases "less_UsedDefine y x")
    case True
    have "sorted_wrt (<) (map defineName (inplace_merge (x # xs) ys))"
      using 3 True by auto
    moreover have "\<forall>z \<in> set (inplace_merge (x # xs) ys). defineName y < defineName z"
      using "3.prems" True by (auto simp: inplace_merge_set less_UsedDefine_def)
    ultimately show ?thesis using True by simp
  next
    case False
    then have lt: "defineName x < defineName y" using ne by (auto simp: less_UsedDefine_def)
    have "sorted_wrt (<) (map defineName (inplace_merge xs (y # ys)))"
      using 3 False by auto
    moreover have "\<forall>z \<in> set (inplace_merge xs (y # ys)). defineName x < defineName z"
      using "3.prems" lt by (auto simp: inplace_merge_set)
    ultimately show ?thesis using False by simp
  qed
qed simp_all

lemma filter_sorted_names:
  "sorted_wrt R (map defineName xs) \<Longrightarrow> sorted_wrt R (map defineName (filter P xs))"
  by (simp add: sorted_wrt_map sorted_wrt_filter)

lemma strict_imp_sorted: "sorted_wrt (<) (xs :: string list) \<Longrightarrow> sorted xs"
  by (rule sorted_wrt_mono_rel [where P = "(<)"]) auto

lemma usedDefines_pass:
  "usedDefines (pass svc events) =
     filter (\<lambda>usedDefine. \<not> contains (defineName usedDefine) ''EXPORT'')
       (inplace_merge (usedDefines (collect svc events))
          (maybeUsedDefines (filterOutHeaderGuards svc (collect svc events))))"
  by (simp add: pass_def EndOfMainFile_def filterOutExports_def mergeUsedDefines_def
        partition_erase_def filterOutHeaderGuards_def)

lemma contains_iff: "contains s sub \<longleftrightarrow> (\<exists>a b. s = a @ sub @ b)"
proof (induction s)
  case Nil
  show ?case by auto
next
  case (Cons c cs)
  show ?case
  proof
    assume "contains (c # cs) sub"
    then consider "prefix sub (c # cs)" | "contains cs sub" by auto
    then show "\<exists>a b. c # cs = a @ sub @ b"
    proof cases
      case 1
      then obtain b where "c # cs = sub @ b" by (auto simp: prefix_def)
      then have "c # cs = [] @ sub @ b" by simp
      then show ?thesis by blast
    next
      case 2
      then obtain a b where "cs = a @ sub @ b" using Cons.IH by blast
      then have "c # cs = (c # a) @ sub @ b" by simp
      then show ?thesis by blast
    qed
  next
    assume "\<exists>a b. c # cs = a @ sub @ b"
    then obtain a b where ab: "c # cs = a @ sub @ b" by blast
    show "contains (c # cs) sub"
    proof (cases a)
      case Nil
      then have "prefix sub (c # cs)" using ab by (simp add: prefix_def)
      then show ?thesis by simp
    next
      case (Cons a0 a')
      then have "cs = a' @ sub @ b" using ab by simp
      then have "contains cs sub" using Cons.IH by blast
      then show ?thesis by simp
    qed
  qed
qed

section \<open>The symbol table\<close>

lemma map_emplace_distinct:
  "distinct (map fst rows) \<Longrightarrow> distinct (map fst (map_emplace k v rows))"
  by (auto simp: map_emplace_def map_of_eq_None_iff)

lemma map_emplace_keeps:
  "map_of rows k = Some e \<Longrightarrow> map_of (map_emplace k' v rows) k = Some e"
  by (simp add: map_emplace_def map_add_def)

lemma addMacroAsSymbol_distinct:
  "distinct (map fst (symbolEntries s)) \<Longrightarrow>
   distinct (map fst (symbolEntries (addMacroAsSymbol svc t mi ty s)))"
  by (simp add: addMacroAsSymbol_def Let_def map_emplace_distinct split: option.splits)

lemma addMacroAsSymbol_keeps:
  "map_find (symbolEntries s) k = Some e \<Longrightarrow>
   map_find (symbolEntries (addMacroAsSymbol svc t mi ty s)) k = Some e"
  by (simp add: addMacroAsSymbol_def Let_def map_find_def map_emplace_keeps split: option.splits)

lemma addUsedDefine_symbolEntries:
  "symbolEntries (addUsedDefine svc t d s) = symbolEntries s"
  by (simp add: addUsedDefine_def Let_def split: option.splits)

lemma InclusionDirective_symbolEntries:
  "symbolEntries (InclusionDirective svc f s) = symbolEntries s"
  by (simp add: InclusionDirective_def addSourceFile_def Let_def split: option.splits)

lemma dispatch_distinct:
  "distinct (map fst (symbolEntries s)) \<Longrightarrow>
   distinct (map fst (symbolEntries (dispatch svc s ev)))"
  by (cases ev)
     (simp_all add: InclusionDirective_symbolEntries FileNotFound_def Ifndef_def Ifdef_def
        Defined_def MacroDefined_def MacroUndefined_def MacroExpands_def
        addMacroAsSymbol_distinct addUsedDefine_symbolEntries)

lemma dispatch_keeps:
  "map_find (symbolEntries s) k = Some e \<Longrightarrow>
   map_find (symbolEntries (dispatch svc s ev)) k = Some e"
  by (cases ev)
     (simp_all add: InclusionDirective_symbolEntries FileNotFound_def Ifndef_def Ifdef_def
        Defined_def MacroDefined_def MacroUndefined_def MacroExpands_def
        addMacroAsSymbol_keeps addUsedDefine_symbolEntries)

lemma foldl_dispatch_distinct:
  "distinct (map fst (symbolEntries s)) \<Longrightarrow>
   distinct (map fst (symbolEntries (foldl (dispatch svc) s events)))"
  by (induction events arbitrary: s) (simp_all add: dispatch_distinct)

lemma collect_distinct: "distinct (map fst (symbolEntries (collect svc events)))"
  unfolding collect_def
  by (rule foldl_dispatch_distinct) (simp add: emptyCollector_def)

lemma EndOfMainFile_symbolEntries: "symbolEntries (EndOfMainFile svc s) = symbolEntries s"
  by (simp add: EndOfMainFile_def filterOutExports_def mergeUsedDefines_def
        filterOutHeaderGuards_def)

section \<open>The origin of a macro\<close>

lemma directiveChain_nonempty: "directiveChain d \<noteq> []"
  by (induction d rule: directiveChain.induct) simp_all

lemma firstDirective_last: "firstDirective d = last (directiveChain d)"
  by (induction d rule: directiveChain.induct) (simp_all add: directiveChain_nonempty)

lemma firstDirective_chain:
  "d' \<in> set (directiveChain d) \<Longrightarrow> firstDirective d' = firstDirective d"
  by (induction d rule: directiveChain.induct) auto

lemma addMacroAsSymbol_log:
  "sourceLocationEntries (addMacroAsSymbol svc t mi ty s) =
     sourceLocationEntries s @ occurrencesOf svc t mi ty"
  by (simp add: addMacroAsSymbol_def occurrencesOf_def Let_def split: option.splits)

lemma addUsedDefine_log:
  "sourceLocationEntries (addUsedDefine svc t d s) = sourceLocationEntries s"
  by (simp add: addUsedDefine_def Let_def split: option.splits)

lemma addMacroAsSymbol_keyed:
  "keyedBy mi s \<Longrightarrow> keyedBy mi (addMacroAsSymbol svc t mi ty s)"
  by (auto simp: keyedBy_def addMacroAsSymbol_def Let_def map_emplace_def split: option.splits)

lemma addUsedDefine_keyed: "keyedBy mi s \<Longrightarrow> keyedBy mi (addUsedDefine svc t d s)"
  by (simp add: keyedBy_def addUsedDefine_log addUsedDefine_symbolEntries)

lemma addMacroAsSymbol_None: "addMacroAsSymbol svc t None ty s = s"
  by (simp add: addMacroAsSymbol_def)

lemma dispatch_keyed:
  assumes "keyedBy mi s"
    and "eventDirective ev = None \<or> firstMacroInfo (eventDirective ev) = mi"
  shows "keyedBy mi (dispatch svc s ev)"
proof (cases ev)
  case (OnInclusionDirective f)
  then show ?thesis using assms(1)
    by (simp add: keyedBy_def InclusionDirective_def addSourceFile_def Let_def split: option.splits)
next
  case OnFileNotFound
  then show ?thesis using assms(1) by (simp add: keyedBy_def FileNotFound_def)
next
  case (OnIfndef t d)
  then show ?thesis using assms
    by (auto simp: Ifndef_def firstMacroInfo_def addMacroAsSymbol_None
        intro: addMacroAsSymbol_keyed addUsedDefine_keyed)
next
  case (OnIfdef t d)
  then show ?thesis using assms
    by (auto simp: Ifdef_def firstMacroInfo_def addMacroAsSymbol_None
        intro: addMacroAsSymbol_keyed addUsedDefine_keyed)
next
  case (OnDefined t d)
  then show ?thesis using assms
    by (auto simp: Defined_def firstMacroInfo_def addMacroAsSymbol_None
        intro: addMacroAsSymbol_keyed addUsedDefine_keyed)
next
  case (OnMacroDefined t d)
  then show ?thesis using assms
    by (auto simp: MacroDefined_def firstMacroInfo_def addMacroAsSymbol_None
        intro: addMacroAsSymbol_keyed)
next
  case (OnMacroUndefined t d)
  then show ?thesis using assms
    by (auto simp: MacroUndefined_def firstMacroInfo_def addMacroAsSymbol_None
        intro: addMacroAsSymbol_keyed)
next
  case (OnMacroExpands t d)
  then show ?thesis using assms
    by (auto simp: MacroExpands_def firstMacroInfo_def addMacroAsSymbol_None
        intro: addMacroAsSymbol_keyed addUsedDefine_keyed)
qed

lemma foldl_dispatch_keyed:
  "keyedBy mi s \<Longrightarrow>
   \<forall>ev \<in> set events. eventDirective ev = None \<or> firstMacroInfo (eventDirective ev) = mi \<Longrightarrow>
   keyedBy mi (foldl (dispatch svc) s events)"
  by (induction events arbitrary: s) (simp_all add: dispatch_keyed)

lemma EndOfMainFile_keyed: "keyedBy mi (EndOfMainFile svc s) = keyedBy mi s"
  by (simp add: keyedBy_def EndOfMainFile_def filterOutExports_def mergeUsedDefines_def
        filterOutHeaderGuards_def)

lemma pass_keyed:
  assumes "\<forall>ev \<in> set events. eventDirective ev = None \<or> firstMacroInfo (eventDirective ev) = mi"
  shows "keyedBy mi (pass svc events)"
  unfolding pass_def EndOfMainFile_keyed collect_def
  by (rule foldl_dispatch_keyed [OF _ assms]) (simp add: keyedBy_def emptyCollector_def)

section \<open>The included files\<close>

lemma std_find_end: "std_find xs v = length xs \<longleftrightarrow> v \<notin> set xs"
proof -
  have "std_find xs v = length xs \<longleftrightarrow> takeWhile (\<lambda>e. e \<noteq> v) xs = xs"
    unfolding std_find_def
    by (metis takeWhile_eq_take take_all_iff order_refl length_takeWhile_le le_antisym)
  then show ?thesis by (auto simp: takeWhile_eq_all_conv)
qed

lemma std_find_hit: "std_find xs v \<noteq> length xs \<Longrightarrow> xs ! std_find xs v = v"
proof -
  assume "std_find xs v \<noteq> length xs"
  then have "std_find xs v < length xs"
    unfolding std_find_def using length_takeWhile_le [of "\<lambda>e. e \<noteq> v" xs] by simp
  then show ?thesis
    unfolding std_find_def using nth_length_takeWhile [of "\<lambda>e. e \<noteq> v" xs] by simp
qed

text \<open>
  What \<^verbatim>\<open>addSourceFile\<close> amounts to: the search is linear, so a new file id is always
  inserted at the end of the vector.
\<close>

lemma addSourceFile_appends:
  "addSourceFile svc file s =
     (if cacheFilePathId svc file \<in> set (sourceFiles s) then s
      else s\<lparr>sourceFiles := sourceFiles s @ [cacheFilePathId svc file]\<rparr>)"
proof (cases "cacheFilePathId svc file \<in> set (sourceFiles s)")
  case True
  then have ne: "std_find (sourceFiles s) (cacheFilePathId svc file) \<noteq> length (sourceFiles s)"
    by (simp add: std_find_end)
  then show ?thesis using True std_find_hit [OF ne]
    by (simp add: addSourceFile_def Let_def)
next
  case False
  then have "std_find (sourceFiles s) (cacheFilePathId svc file) = length (sourceFiles s)"
    by (simp add: std_find_end)
  then show ?thesis using False
    by (simp add: addSourceFile_def Let_def vector_insert_def)
qed

lemma InclusionDirective_distinct:
  "distinct (sourceFiles s) \<Longrightarrow> distinct (sourceFiles (InclusionDirective svc f s))"
  by (simp add: InclusionDirective_def addSourceFile_appends split: option.splits)

lemma dispatch_sourceFiles_distinct:
  "distinct (sourceFiles s) \<Longrightarrow> distinct (sourceFiles (dispatch svc s ev))"
  by (cases ev)
     (simp_all add: InclusionDirective_distinct FileNotFound_def Ifndef_def Ifdef_def
        Defined_def MacroDefined_def MacroUndefined_def MacroExpands_def
        addMacroAsSymbol_def addUsedDefine_def Let_def split: option.splits)

lemma sourceFiles_distinct: "distinct (sourceFiles (pass svc events))"
proof -
  have "distinct (sourceFiles s) \<Longrightarrow> distinct (sourceFiles (foldl (dispatch svc) s events))" for s
    by (induction events arbitrary: s) (simp_all add: dispatch_sourceFiles_distinct)
  then have "distinct (sourceFiles (collect svc events))"
    by (simp add: collect_def emptyCollector_def)
  then show ?thesis
    by (simp add: pass_def EndOfMainFile_def filterOutExports_def mergeUsedDefines_def
          filterOutHeaderGuards_def)
qed

section \<open>The final used-define sequence\<close>

text \<open>
  Claim C1, as stated, at \<^verbatim>\<open>#ifdef X\<close>, \<^verbatim>\<open>#define X\<close>, use of \<^verbatim>\<open>X\<close>: the name is
  recorded in the tentative vector by the test and in the confirmed vector by the expansion,
  the merge keeps both entries, and the final sequence holds the name twice.
\<close>

theorem final_usedDefines_duplicate_name:
  "usedDefines (pass exampleServices testedThenExpanded) =
     [\<lparr>defineName = ''X'', filePathId = 3\<rparr>, \<lparr>defineName = ''X'', filePathId = 1\<rparr>] \<and>
   \<not> distinct (map defineName (usedDefines (pass exampleServices testedThenExpanded))) \<and>
   \<not> sorted_wrt (<) (map defineName (usedDefines (pass exampleServices testedThenExpanded)))"
  by (simp add: testedThenExpanded_def callback_defs example_defs)

text \<open>
  Claim C1, amended: after the end-of-file finalization the final used-define sequence is
  sorted by name for every sequence of events; it is strictly sorted, hence free of duplicate
  names, whenever no name is both in the confirmed vector and in the tentative vector left by
  the header-guard filter.
\<close>

theorem final_usedDefines_sorted:
  "sorted (map defineName (usedDefines (pass svc events))) \<and>
   (defineName ` set (usedDefines (collect svc events)) \<inter>
      defineName ` set (maybeUsedDefines (filterOutHeaderGuards svc (collect svc events))) = {}
    \<longrightarrow> sorted_wrt (<) (map defineName (usedDefines (pass svc events))))"
proof -
  let ?s = "collect svc events"
  let ?g = "filterOutHeaderGuards svc ?s"
  have inv: "usedDefinesSorted ?s" by (rule collect_sorted)
  have u: "sorted_wrt (<) (map defineName (usedDefines ?s))"
    using inv by (simp add: usedDefinesSorted_def)
  have m: "sorted_wrt (<) (map defineName (maybeUsedDefines ?g))"
    using inv
    by (simp add: usedDefinesSorted_def filterOutHeaderGuards_def partition_erase_def
          filter_sorted_names)
  have "sorted (map defineName (inplace_merge (usedDefines ?s) (maybeUsedDefines ?g)))"
    using u m by (intro inplace_merge_sorted strict_imp_sorted)
  then have a: "sorted (map defineName (usedDefines (pass svc events)))"
    unfolding usedDefines_pass by (rule filter_sorted_names)
  have b: "sorted_wrt (<) (map defineName (usedDefines (pass svc events)))"
    if "defineName ` set (usedDefines ?s) \<inter> defineName ` set (maybeUsedDefines ?g) = {}"
  proof -
    have "sorted_wrt (<) (map defineName (inplace_merge (usedDefines ?s) (maybeUsedDefines ?g)))"
      using u m that by (intro inplace_merge_strict)
    then show ?thesis unfolding usedDefines_pass by (rule filter_sorted_names)
  qed
  show ?thesis using a b by blast
qed

text \<open>
  The amended claim C1 on the guarded header: \<^verbatim>\<open>A\<close> is confirmed, \<^verbatim>\<open>B\<close> is tentative,
  the guard is dropped, and the final sequence is strictly sorted.
\<close>

theorem final_usedDefines_sorted_witness:
  "defineName ` set (usedDefines (collect exampleServices guardedHeader)) \<inter>
     defineName ` set (maybeUsedDefines
        (filterOutHeaderGuards exampleServices (collect exampleServices guardedHeader))) = {} \<and>
   sorted_wrt (<) (map defineName (usedDefines (pass exampleServices guardedHeader))) \<and>
   usedDefines (pass exampleServices guardedHeader) =
     [\<lparr>defineName = ''A'', filePathId = 4\<rparr>, \<lparr>defineName = ''B'', filePathId = 5\<rparr>]"
proof -
  have h: "defineName ` set (usedDefines (collect exampleServices guardedHeader)) \<inter>
     defineName ` set (maybeUsedDefines
        (filterOutHeaderGuards exampleServices (collect exampleServices guardedHeader))) = {}"
    by (simp add: guardedHeader_def callback_defs example_defs)
  have v: "usedDefines (pass exampleServices guardedHeader) =
     [\<lparr>defineName = ''A'', filePathId = 4\<rparr>, \<lparr>defineName = ''B'', filePathId = 5\<rparr>]"
    by (simp add: guardedHeader_def callback_defs example_defs)
  from final_usedDefines_sorted [of exampleServices guardedHeader] h
  have "sorted_wrt (<) (map defineName (usedDefines (pass exampleServices guardedHeader)))"
    by blast
  with h v show ?thesis by blast
qed

section \<open>Inclusion after a failed resolution\<close>

text \<open>
  Claim C2, as stated, at a failed resolution followed by the inclusion callback for the
  recovered file: the set of included files stays empty, the recovered file is not in it.
\<close>

theorem recovered_file_not_recorded:
  "sourceFiles (pass exampleServices [OnFileNotFound, OnInclusionDirective (Some ''recovered.h'')])
     = [] \<and>
   cacheFilePathId exampleServices ''recovered.h'' \<notin>
     set (sourceFiles
       (pass exampleServices [OnFileNotFound, OnInclusionDirective (Some ''recovered.h'')]))"
  by (simp add: callback_defs example_defs)

text \<open>
  Claim C2, amended: the inclusion callback that immediately follows a failed resolution adds
  nothing to the set of included files, whatever file it carries, so the pair leaves the set
  as it was (no entry for that directive); it clears the suppression, and the inclusion
  callback after it records its file as usual.
\<close>

theorem inclusion_after_FileNotFound_adds_nothing:
  "sourceFiles (InclusionDirective svc file (snd (FileNotFound s))) = sourceFiles s \<and>
   skipInclude (InclusionDirective svc file (snd (FileNotFound s))) = False \<and>
   sourceFiles (InclusionDirective svc (Some next)
       (InclusionDirective svc file (snd (FileNotFound s)))) =
     sourceFiles (addSourceFile svc next s)"
proof -
  let ?s1 = "InclusionDirective svc file (snd (FileNotFound s))"
  have same: "sourceFiles ?s1 = sourceFiles s"
    by (simp add: InclusionDirective_def FileNotFound_def split: option.splits)
  have cleared: "skipInclude ?s1 = False"
    by (simp add: InclusionDirective_def)
  have "sourceFiles (InclusionDirective svc (Some next) ?s1) = sourceFiles (addSourceFile svc next ?s1)"
    using cleared by (simp add: InclusionDirective_def)
  also have "\<dots> = sourceFiles (addSourceFile svc next s)"
    using same by (simp add: addSourceFile_appends)
  finally show ?thesis using same cleared by simp
qed

text \<open>The amended claim C2 on the empty collector, with a recovered file and a next one.\<close>

theorem inclusion_after_FileNotFound_adds_nothing_witness:
  "sourceFiles (InclusionDirective exampleServices (Some ''recovered.h'')
       (snd (FileNotFound emptyCollector))) = [] \<and>
   sourceFiles (InclusionDirective exampleServices (Some ''a.h'')
       (InclusionDirective exampleServices (Some ''recovered.h'')
          (snd (FileNotFound emptyCollector)))) = [1]"
  using inclusion_after_FileNotFound_adds_nothing
    [of exampleServices "Some ''recovered.h''" emptyCollector "''a.h''"]
  by (simp add: addSourceFile_appends emptyCollector_def exampleServices_def)

section \<open>Canonical ids that could not be generated\<close>

text \<open>
  Claim C3, as stated, at a definition of \<^verbatim>\<open>X\<close> where the generator fails, followed by a
  use of \<^verbatim>\<open>X\<close> where it succeeds: the table has no entry after the first occurrence and
  has one after the second.
\<close>

theorem later_occurrence_inserts_entry:
  "generateUSR exampleServices ''X'' (FileLoc 1) = None \<and>
   map_find (symbolEntries (collect exampleServices [definedAtFailingLocation])) 7 = None \<and>
   map_find (symbolEntries (pass exampleServices failedThenUsed)) 7 =
     Some \<lparr>usr = ''c:@macro@X'', symbolName = ''X''\<rparr>"
  by (simp add: failedThenUsed_def definedAtFailingLocation_def callback_defs example_defs)

text \<open>
  Claim C3, amended: when an occurrence at a file location with a valid file id finds no
  entry for its identity, the generator is called at that occurrence, whether or not it
  failed at earlier ones; the entry is omitted if it fails and inserted, with the generated
  id and the macro name, if it succeeds.
\<close>

theorem generateUSR_retried_while_absent:
  assumes "isFileID (getLocation t)"
    and "isValid svc (locationFilePathId svc (getLocation t))"
    and "map_find (symbolEntries s) (toSymbolIndex info) = None"
  shows "map_find (symbolEntries (addMacroAsSymbol svc t (Some info) ty s)) (toSymbolIndex info) =
           (case generateUSR svc (getName t) (getLocation t) of
              None \<Rightarrow> None
            | Some u \<Rightarrow> Some \<lparr>usr = u, symbolName = getName t\<rparr>)"
proof (cases "generateUSR svc (getName t) (getLocation t)")
  case None
  then show ?thesis using assms by (simp add: addMacroAsSymbol_def Let_def)
next
  case (Some u)
  then show ?thesis using assms
    by (simp add: addMacroAsSymbol_def Let_def map_find_def map_emplace_def map_add_def)
qed

text \<open>
  The amended claim C3 after the failed definition of \<^verbatim>\<open>X\<close>: the use at location 3 calls
  the generator again and inserts the entry.
\<close>

theorem generateUSR_retried_while_absent_witness:
  "isFileID (getLocation (tokenAt ''X'' 3)) \<and>
   isValid exampleServices (locationFilePathId exampleServices (getLocation (tokenAt ''X'' 3))) \<and>
   map_find (symbolEntries (collect exampleServices [definedAtFailingLocation]))
     (toSymbolIndex infoX) = None \<and>
   map_find (symbolEntries (addMacroAsSymbol exampleServices (tokenAt ''X'' 3) (Some infoX) MacroUsage
       (collect exampleServices [definedAtFailingLocation]))) (toSymbolIndex infoX) =
     Some \<lparr>usr = ''c:@macro@X'', symbolName = ''X''\<rparr>"
proof -
  have a: "isFileID (getLocation (tokenAt ''X'' 3))" by (simp add: tokenAt_def)
  have b: "isValid exampleServices (locationFilePathId exampleServices (getLocation (tokenAt ''X'' 3)))"
    by (simp add: example_defs)
  have c: "map_find (symbolEntries (collect exampleServices [definedAtFailingLocation]))
     (toSymbolIndex infoX) = None"
    by (simp add: definedAtFailingLocation_def callback_defs example_defs)
  show ?thesis
    using a b c generateUSR_retried_while_absent [OF a b c, of MacroUsage]
    by (simp add: example_defs)
qed

section \<open>The order of the included files\<close>

text \<open>
  Claim C4 at the inclusion of \<^verbatim>\<open>b.h\<close> (file id 2) followed by \<^verbatim>\<open>a.h\<close> (file id 1):
  the vector handed to the caller holds the ids in the order of inclusion, which is not
  sorted.
\<close>

theorem sourceFiles_keep_inclusion_order:
  "sourceFiles (pass exampleServices
       [OnInclusionDirective (Some ''b.h''), OnInclusionDirective (Some ''a.h'')]) = [2, 1] \<and>
   \<not> sorted (sourceFiles (pass exampleServices
       [OnInclusionDirective (Some ''b.h''), OnInclusionDirective (Some ''a.h'')]))"
  by (simp add: callback_defs example_defs)

section \<open>The header-guard filter\<close>

text \<open>
  Claim C5: the header-guard filter keeps an entry of the tentative vector exactly when its
  name does not resolve to macro info flagged as a header guard; an entry whose name
  resolves to no macro info is kept; the entries kept stay in their order; the confirmed
  vector is left as it is.
\<close>

theorem filterOutHeaderGuards_exact:
  "(u \<in> set (maybeUsedDefines (filterOutHeaderGuards svc s)) \<longleftrightarrow>
      u \<in> set (maybeUsedDefines s) \<and>
      \<not> (\<exists>macroInfo. preprocessorMacroInfo svc (defineName u) = Some macroInfo \<and>
                       isUsedForHeaderGuard macroInfo)) \<and>
   (u \<in> set (maybeUsedDefines s) \<and> preprocessorMacroInfo svc (defineName u) = None
      \<longrightarrow> u \<in> set (maybeUsedDefines (filterOutHeaderGuards svc s))) \<and>
   subseq (maybeUsedDefines (filterOutHeaderGuards svc s)) (maybeUsedDefines s) \<and>
   usedDefines (filterOutHeaderGuards svc s) = usedDefines s"
proof -
  let ?keep = "\<lambda>usedDefine. case preprocessorMacroInfo svc (defineName usedDefine) of
                   None \<Rightarrow> True | Some macroInfo \<Rightarrow> \<not> isUsedForHeaderGuard macroInfo"
  have shape: "maybeUsedDefines (filterOutHeaderGuards svc s) = filter ?keep (maybeUsedDefines s)"
    by (simp add: filterOutHeaderGuards_def partition_erase_def)
  have keep: "?keep u \<longleftrightarrow>
      \<not> (\<exists>macroInfo. preprocessorMacroInfo svc (defineName u) = Some macroInfo \<and>
                       isUsedForHeaderGuard macroInfo)"
    by (cases "preprocessorMacroInfo svc (defineName u)") simp_all
  have unknown: "?keep u" if "preprocessorMacroInfo svc (defineName u) = None"
    using that by simp
  have confirmed: "usedDefines (filterOutHeaderGuards svc s) = usedDefines s"
    by (simp add: filterOutHeaderGuards_def)
  show ?thesis
    unfolding shape using keep unknown confirmed by auto
qed

text \<open>
  Claim C5 on the guarded header: the guard leaves the tentative vector, the unknown macro
  \<^verbatim>\<open>B\<close> stays, and the confirmed vector is unchanged.
\<close>

theorem filterOutHeaderGuards_exact_witness:
  "\<lparr>defineName = ''B'', filePathId = 5\<rparr> \<in> set (maybeUsedDefines (collect exampleServices guardedHeader)) \<and>
   preprocessorMacroInfo exampleServices ''B'' = None \<and>
   \<lparr>defineName = ''B'', filePathId = 5\<rparr> \<in>
     set (maybeUsedDefines (filterOutHeaderGuards exampleServices (collect exampleServices guardedHeader))) \<and>
   \<lparr>defineName = ''GUARD_H'', filePathId = 1\<rparr> \<in>
     set (maybeUsedDefines (collect exampleServices guardedHeader)) \<and>
   \<lparr>defineName = ''GUARD_H'', filePathId = 1\<rparr> \<notin>
     set (maybeUsedDefines (filterOutHeaderGuards exampleServices (collect exampleServices guardedHeader)))"
proof -
  let ?s = "collect exampleServices guardedHeader"
  have tentative: "maybeUsedDefines ?s =
      [\<lparr>defineName = ''B'', filePathId = 5\<rparr>, \<lparr>defineName = ''GUARD_H'', filePathId = 1\<rparr>]"
    by (simp add: guardedHeader_def callback_defs example_defs)
  have unknown: "preprocessorMacroInfo exampleServices ''B'' = None"
    by (simp add: exampleServices_def)
  have guard: "preprocessorMacroInfo exampleServices ''GUARD_H'' = Some infoGuard \<and>
      isUsedForHeaderGuard infoGuard"
    by (simp add: exampleServices_def infoGuard_def)
  have kept: "\<lparr>defineName = ''B'', filePathId = 5\<rparr> \<in>
      set (maybeUsedDefines (filterOutHeaderGuards exampleServices ?s))"
    using filterOutHeaderGuards_exact
      [of "\<lparr>defineName = ''B'', filePathId = 5\<rparr>" exampleServices ?s] tentative unknown
    by simp
  have dropped: "\<lparr>defineName = ''GUARD_H'', filePathId = 1\<rparr> \<notin>
      set (maybeUsedDefines (filterOutHeaderGuards exampleServices ?s))"
    using filterOutHeaderGuards_exact
      [of "\<lparr>defineName = ''GUARD_H'', filePathId = 1\<rparr>" exampleServices ?s] guard
    by simp
  show ?thesis using tentative unknown kept dropped by simp
qed

section \<open>The earliest directive\<close>

text \<open>
  Claim C6: \<^verbatim>\<open>firstMacroInfo\<close> returns nothing for a null directive and, for a directive,
  the macro info of the earliest directive of its chain; so every directive of one chain,
  however often the macro was redefined, yields the same macro info and the same symbol
  index. Consequently each of the six callbacks, called with any directive of the chain,
  appends exactly the occurrences keyed by the symbol index of the earliest directive's macro
  info (a definition, an undefinition or a usage); and in a pass whose events all carry
  directives of one chain, every occurrence of the log and every row of the symbol table is
  keyed by that one index.
\<close>

theorem firstMacroInfo_earliest:
  "firstMacroInfo None = None \<and>
   firstMacroInfo (Some d) = getMacroInfo (last (directiveChain d)) \<and>
   (\<forall>d' \<in> set (directiveChain d).
      firstMacroInfo (Some d') = firstMacroInfo (Some d) \<and>
      map_option toSymbolIndex (firstMacroInfo (Some d')) =
        map_option toSymbolIndex (getMacroInfo (last (directiveChain d))) \<and>
      addMacroAsSymbol svc t (firstMacroInfo (Some d')) ty s =
        addMacroAsSymbol svc t (getMacroInfo (last (directiveChain d))) ty s \<and>
      sourceLocationEntries (MacroDefined svc t (Some d') s) =
        sourceLocationEntries s @
          occurrencesOf svc t (getMacroInfo (last (directiveChain d))) MacroDefinition \<and>
      (\<forall>md. getLocalDirective md = Some d' \<longrightarrow>
         sourceLocationEntries (MacroUndefined svc t md s) =
           sourceLocationEntries s @
             occurrencesOf svc t (getMacroInfo (last (directiveChain d))) MacroUndefinition \<and>
         sourceLocationEntries (Ifndef svc t md s) =
           sourceLocationEntries s @
             occurrencesOf svc t (getMacroInfo (last (directiveChain d))) MacroUsage \<and>
         sourceLocationEntries (Ifdef svc t md s) =
           sourceLocationEntries s @
             occurrencesOf svc t (getMacroInfo (last (directiveChain d))) MacroUsage \<and>
         sourceLocationEntries (Defined svc t md s) =
           sourceLocationEntries s @
             occurrencesOf svc t (getMacroInfo (last (directiveChain d))) MacroUsage \<and>
         sourceLocationEntries (MacroExpands svc t md s) =
           sourceLocationEntries s @
             occurrencesOf svc t (getMacroInfo (last (directiveChain d))) MacroUsage)) \<and>
   ((\<forall>ev \<in> set events. \<forall>d'. eventDirective ev = Some d' \<longrightarrow> d' \<in> set (directiveChain d)) \<longrightarrow>
      (\<forall>e \<in> set (sourceLocationEntries (pass svc events)).
         Some (symbolId e) = map_option toSymbolIndex (getMacroInfo (last (directiveChain d)))) \<and>
      (\<forall>r \<in> set (symbolEntries (pass svc events)).
         Some (fst r) = map_option toSymbolIndex (getMacroInfo (last (directiveChain d)))))"
proof -
  let ?origin = "getMacroInfo (last (directiveChain d))"
  have null: "firstMacroInfo None = None"
    by (simp add: firstMacroInfo_def)
  have earliest: "firstMacroInfo (Some d) = ?origin"
    by (simp add: firstMacroInfo_def firstDirective_last)
  have stable: "firstMacroInfo (Some d') = ?origin" if "d' \<in> set (directiveChain d)" for d'
  proof -
    have "firstMacroInfo (Some d') = getMacroInfo (firstDirective d)"
      using that by (simp add: firstMacroInfo_def firstDirective_chain)
    then show ?thesis by (simp add: firstDirective_last)
  qed
  have callbacks:
    "sourceLocationEntries (MacroDefined svc t (Some d') s) =
       sourceLocationEntries s @ occurrencesOf svc t ?origin MacroDefinition \<and>
     (\<forall>md. getLocalDirective md = Some d' \<longrightarrow>
        sourceLocationEntries (MacroUndefined svc t md s) =
          sourceLocationEntries s @ occurrencesOf svc t ?origin MacroUndefinition \<and>
        sourceLocationEntries (Ifndef svc t md s) =
          sourceLocationEntries s @ occurrencesOf svc t ?origin MacroUsage \<and>
        sourceLocationEntries (Ifdef svc t md s) =
          sourceLocationEntries s @ occurrencesOf svc t ?origin MacroUsage \<and>
        sourceLocationEntries (Defined svc t md s) =
          sourceLocationEntries s @ occurrencesOf svc t ?origin MacroUsage \<and>
        sourceLocationEntries (MacroExpands svc t md s) =
          sourceLocationEntries s @ occurrencesOf svc t ?origin MacroUsage)"
    if "d' \<in> set (directiveChain d)" for d'
    using stable [OF that]
    by (simp add: MacroDefined_def MacroUndefined_def Ifndef_def Ifdef_def Defined_def
          MacroExpands_def addMacroAsSymbol_log addUsedDefine_log)
  have whole: "keyedBy ?origin (pass svc events)"
    if h: "\<forall>ev \<in> set events. \<forall>d'. eventDirective ev = Some d' \<longrightarrow> d' \<in> set (directiveChain d)"
  proof (rule pass_keyed, rule ballI)
    fix ev assume "ev \<in> set events"
    then have "\<forall>d'. eventDirective ev = Some d' \<longrightarrow> d' \<in> set (directiveChain d)"
      using h by blast
    then show "eventDirective ev = None \<or> firstMacroInfo (eventDirective ev) = ?origin"
      using stable by (cases "eventDirective ev") auto
  qed
  show ?thesis
    using null earliest stable callbacks whole
    unfolding keyedBy_def list_all_iff
    by (simp (no_asm_simp))
qed

text \<open>
  Claim C6 on a macro defined twice: both directives resolve to the macro info of the first
  definition, and the five occurrences of the pass (definition, usage, definition, usage,
  undefinition) and the row of the table are all keyed by its index 31.
\<close>

theorem firstMacroInfo_earliest_witness:
  "MacroDirective (Some \<lparr>address = 31, isUsedForHeaderGuard = False\<rparr>) None
     \<in> set (directiveChain redefinedTwice) \<and>
   firstMacroInfo (Some redefinedTwice) = Some \<lparr>address = 31, isUsedForHeaderGuard = False\<rparr> \<and>
   firstMacroInfo (Some (MacroDirective (Some \<lparr>address = 31, isUsedForHeaderGuard = False\<rparr>) None)) =
     firstMacroInfo (Some redefinedTwice) \<and>
   list_all (\<lambda>e. symbolId e = 31) (sourceLocationEntries (pass exampleServices redefinitionEvents)) \<and>
   list_all (\<lambda>r. fst r = 31) (symbolEntries (pass exampleServices redefinitionEvents)) \<and>
   map symbolType (sourceLocationEntries (pass exampleServices redefinitionEvents)) =
     [MacroDefinition, MacroUsage, MacroDefinition, MacroUsage, MacroUndefinition] \<and>
   map fst (symbolEntries (pass exampleServices redefinitionEvents)) = [31]"
proof -
  let ?first = "MacroDirective (Some \<lparr>address = 31, isUsedForHeaderGuard = False\<rparr>) None"
  note instance_facts = firstMacroInfo_earliest [of redefinedTwice exampleServices "tokenAt ''M'' 2" MacroUsage emptyCollector
      redefinitionEvents]
  have member: "?first \<in> set (directiveChain redefinedTwice)"
    by (simp add: redefinedTwice_def)
  have origin: "getMacroInfo (last (directiveChain redefinedTwice)) =
      Some \<lparr>address = 31, isUsedForHeaderGuard = False\<rparr>"
    by (simp add: redefinedTwice_def)
  have result: "firstMacroInfo (Some redefinedTwice) =
      Some \<lparr>address = 31, isUsedForHeaderGuard = False\<rparr>"
    using instance_facts origin by simp
  have same: "firstMacroInfo (Some ?first) = firstMacroInfo (Some redefinedTwice)"
    using instance_facts member by blast
  have chain: "\<forall>ev \<in> set redefinitionEvents.
      \<forall>d'. eventDirective ev = Some d' \<longrightarrow> d' \<in> set (directiveChain redefinedTwice)"
    by (simp add: redefinitionEvents_def redefinedTwice_def)
  have keyed: "(\<forall>e \<in> set (sourceLocationEntries (pass exampleServices redefinitionEvents)).
         Some (symbolId e) = map_option toSymbolIndex (getMacroInfo (last (directiveChain redefinedTwice)))) \<and>
      (\<forall>r \<in> set (symbolEntries (pass exampleServices redefinitionEvents)).
         Some (fst r) = map_option toSymbolIndex (getMacroInfo (last (directiveChain redefinedTwice))))"
    using instance_facts chain by blast
  have keys: "list_all (\<lambda>e. symbolId e = 31) (sourceLocationEntries (pass exampleServices redefinitionEvents)) \<and>
      list_all (\<lambda>r. fst r = 31) (symbolEntries (pass exampleServices redefinitionEvents))"
    using keyed unfolding origin list_all_iff by (simp add: toSymbolIndex_def)
  have kinds: "map symbolType (sourceLocationEntries (pass exampleServices redefinitionEvents)) =
      [MacroDefinition, MacroUsage, MacroDefinition, MacroUsage, MacroUndefinition]"
    by (simp add: redefinitionEvents_def redefinedTwice_def callback_defs example_defs)
  have rows: "map fst (symbolEntries (pass exampleServices redefinitionEvents)) = [31]"
    by (simp add: redefinitionEvents_def redefinedTwice_def callback_defs example_defs)
  show ?thesis using member result same keys kinds rows by simp
qed

section \<open>The export filter\<close>

text \<open>
  Claim C7: after finalization no entry of the final used-define sequence has a name that
  contains \<^verbatim>\<open>EXPORT\<close>, whether it came from the confirmed or from the tentative vector; an
  entry of the confirmed or of the tentative vector left by the header-guard filter whose
  name does not contain \<^verbatim>\<open>EXPORT\<close> is in the final sequence, and the export filter
  alone removes no such entry.
\<close>

theorem no_EXPORT_in_final_usedDefines:
  "(\<forall>u \<in> set (usedDefines (pass svc events)). \<not> (\<exists>a b. defineName u = a @ ''EXPORT'' @ b)) \<and>
   (\<forall>u \<in> set (usedDefines (EndOfMainFile svc s)). \<not> (\<exists>a b. defineName u = a @ ''EXPORT'' @ b)) \<and>
   (u \<in> set (usedDefines s) \<union> set (maybeUsedDefines (filterOutHeaderGuards svc s)) \<and>
      \<not> (\<exists>a b. defineName u = a @ ''EXPORT'' @ b)
      \<longrightarrow> u \<in> set (usedDefines (EndOfMainFile svc s))) \<and>
   (u \<in> set (usedDefines s) \<and> \<not> (\<exists>a b. defineName u = a @ ''EXPORT'' @ b)
      \<longrightarrow> u \<in> set (usedDefines (filterOutExports s)))"
proof -
  let ?named = "\<lambda>usedDefine. \<exists>a b. defineName usedDefine = a @ ''EXPORT'' @ b"
  have filt: "usedDefines (filterOutExports x) = filter (\<lambda>usedDefine. \<not> ?named usedDefine) (usedDefines x)"
    for x
    by (simp add: filterOutExports_def partition_erase_def contains_iff)
  have merged: "set (usedDefines (mergeUsedDefines (filterOutHeaderGuards svc s))) =
      set (usedDefines s) \<union> set (maybeUsedDefines (filterOutHeaderGuards svc s))"
    by (simp add: mergeUsedDefines_def inplace_merge_set filterOutHeaderGuards_def)
  have final: "set (usedDefines (EndOfMainFile svc x)) =
      {v \<in> set (usedDefines (mergeUsedDefines (filterOutHeaderGuards svc x))). \<not> ?named v}" for x
    unfolding EndOfMainFile_def filt by auto
  have "\<forall>u \<in> set (usedDefines (pass svc events)). \<not> ?named u"
    unfolding pass_def final by blast
  moreover have "\<forall>u \<in> set (usedDefines (EndOfMainFile svc s)). \<not> ?named u"
    unfolding final by blast
  moreover have "u \<in> set (usedDefines (EndOfMainFile svc s))"
    if "u \<in> set (usedDefines s) \<union> set (maybeUsedDefines (filterOutHeaderGuards svc s)) \<and> \<not> ?named u"
    using that unfolding final merged by blast
  moreover have "u \<in> set (usedDefines (filterOutExports s))"
    if "u \<in> set (usedDefines s) \<and> \<not> ?named u"
    using that unfolding filt by simp
  ultimately show ?thesis by blast
qed

text \<open>
  Claim C7 on the expansions of \<^verbatim>\<open>MYLIB_EXPORT\<close> and \<^verbatim>\<open>MYLIB_FEATURE\<close>: both are
  recorded as confirmed used defines, and only the second is in the final sequence.
\<close>

theorem no_EXPORT_in_final_usedDefines_witness:
  "usedDefines (collect exampleServices exportAndFeature) =
     [\<lparr>defineName = ''MYLIB_EXPORT'', filePathId = 2\<rparr>,
      \<lparr>defineName = ''MYLIB_FEATURE'', filePathId = 3\<rparr>] \<and>
   \<not> contains ''MYLIB_FEATURE'' ''EXPORT'' \<and>
   \<lparr>defineName = ''MYLIB_FEATURE'', filePathId = 3\<rparr> \<in>
     set (usedDefines (pass exampleServices exportAndFeature)) \<and>
   \<lparr>defineName = ''MYLIB_EXPORT'', filePathId = 2\<rparr> \<notin>
     set (usedDefines (pass exampleServices exportAndFeature))"
proof -
  let ?s = "collect exampleServices exportAndFeature"
  let ?feature = "\<lparr>defineName = ''MYLIB_FEATURE'', filePathId = 3\<rparr>"
  let ?export = "\<lparr>defineName = ''MYLIB_EXPORT'', filePathId = 2\<rparr>"
  have confirmed: "usedDefines ?s = [?export, ?feature]"
    by (simp add: exportAndFeature_def callback_defs example_defs)
  have plain: "\<not> contains ''MYLIB_FEATURE'' ''EXPORT''"
    by simp
  then have plain': "\<not> (\<exists>a b. defineName ?feature = a @ ''EXPORT'' @ b)"
    by (simp add: contains_iff)
  have marked: "\<exists>a b. defineName ?export = a @ ''EXPORT'' @ b"
    using contains_iff [of "''MYLIB_EXPORT''" "''EXPORT''"] by simp
  have kept: "?feature \<in> set (usedDefines (pass exampleServices exportAndFeature))"
    using no_EXPORT_in_final_usedDefines [of exampleServices exportAndFeature ?s ?feature]
      confirmed plain'
    unfolding pass_def by simp
  have dropped: "?export \<notin> set (usedDefines (pass exampleServices exportAndFeature))"
    using no_EXPORT_in_final_usedDefines [of exampleServices exportAndFeature ?s ?export] marked
    by blast
  show ?thesis using confirmed plain kept dropped by blast
qed

section \<open>One row per identity\<close>

text \<open>
  Claim C8: at every point of a pass, and after its finalization, no two rows of the symbol
  table have the same identity; an entry that is in the table stays as it is through every
  later event, and an occurrence of an identity that has an entry leaves the rows of the
  table untouched.
\<close>

theorem symbolEntries_one_row_per_identity:
  "distinct (map fst (symbolEntries (collect svc events))) \<and>
   distinct (map fst (symbolEntries (pass svc events))) \<and>
   (map_find (symbolEntries (collect svc events)) k = Some e \<longrightarrow>
      map_find (symbolEntries (dispatch svc (collect svc events) ev)) k = Some e) \<and>
   (map_find (symbolEntries s) (toSymbolIndex info) = Some e \<longrightarrow>
      symbolEntries (addMacroAsSymbol svc t (Some info) ty s) = symbolEntries s)"
proof -
  have present: "symbolEntries (addMacroAsSymbol svc t (Some info) ty s) = symbolEntries s"
    if "map_find (symbolEntries s) (toSymbolIndex info) = Some e"
    using that by (simp add: addMacroAsSymbol_def Let_def)
  have final: "symbolEntries (pass svc events) = symbolEntries (collect svc events)"
    by (simp add: pass_def EndOfMainFile_symbolEntries)
  show ?thesis
    using present collect_distinct [of svc events] dispatch_keeps [of "collect svc events" k e svc ev]
    unfolding final by blast
qed

text \<open>
  Claim C8 after the test, definition and use of \<^verbatim>\<open>X\<close>: the table has the one row of
  \<^verbatim>\<open>X\<close>, and an undefinition of \<^verbatim>\<open>X\<close> leaves that row in place.
\<close>

theorem symbolEntries_one_row_per_identity_witness:
  "map_find (symbolEntries (collect exampleServices testedThenExpanded)) 7 =
     Some \<lparr>usr = ''c:@macro@X'', symbolName = ''X''\<rparr> \<and>
   map_find (symbolEntries (dispatch exampleServices (collect exampleServices testedThenExpanded)
       (OnMacroUndefined (tokenAt ''X'' 4) (definedMacro infoX)))) 7 =
     Some \<lparr>usr = ''c:@macro@X'', symbolName = ''X''\<rparr> \<and>
   distinct (map fst (symbolEntries (collect exampleServices testedThenExpanded)))"
proof -
  let ?row = "\<lparr>usr = ''c:@macro@X'', symbolName = ''X''\<rparr>"
  have present: "map_find (symbolEntries (collect exampleServices testedThenExpanded)) 7 = Some ?row"
    by (simp add: testedThenExpanded_def callback_defs example_defs)
  from symbolEntries_one_row_per_identity
    [of exampleServices testedThenExpanded 7 ?row
        "OnMacroUndefined (tokenAt ''X'' 4) (definedMacro infoX)"]
    present
  show ?thesis by blast
qed

section \<open>Occurrences and their conditions\<close>

text \<open>
  Claim C9: when an occurrence with a macro info, at a file location with a valid file id,
  finds no entry for its identity and the generation of the canonical id fails, the symbol
  table is left as it is and the occurrence is appended to the log.
\<close>

theorem failed_generateUSR_keeps_occurrence:
  assumes "macroInfo = Some info"
    and "isFileID (getLocation t)"
    and "isValid svc (locationFilePathId svc (getLocation t))"
    and "map_find (symbolEntries s) (toSymbolIndex info) = None"
    and "generateUSR svc (getName t) (getLocation t) = None"
  shows "symbolEntries (addMacroAsSymbol svc t macroInfo ty s) = symbolEntries s \<and>
         sourceLocationEntries (addMacroAsSymbol svc t macroInfo ty s) =
           sourceLocationEntries s @
             [\<lparr>symbolId = toSymbolIndex info,
               entryFilePathId = locationFilePathId svc (getLocation t),
               lineColumn = lineColum svc (getLocation t),
               symbolType = ty\<rparr>]"
proof -
  let ?s' = "addMacroAsSymbol svc t (Some info) ty s"
  have table: "symbolEntries ?s' = symbolEntries s"
    using assms(2-5) by (simp add: addMacroAsSymbol_def Let_def)
  have log: "sourceLocationEntries ?s' =
      sourceLocationEntries s @
        [\<lparr>symbolId = toSymbolIndex info,
          entryFilePathId = locationFilePathId svc (getLocation t),
          lineColumn = lineColum svc (getLocation t),
          symbolType = ty\<rparr>]"
    using assms(2-5) by (simp add: addMacroAsSymbol_def Let_def)
  show ?thesis using table log assms(1) by simp
qed

text \<open>
  Claim C9 on the definition of \<^verbatim>\<open>X\<close> at location 1, where the generator fails: no row,
  one occurrence.
\<close>

theorem failed_generateUSR_keeps_occurrence_witness:
  "generateUSR exampleServices (getName (tokenAt ''X'' 1)) (getLocation (tokenAt ''X'' 1)) = None \<and>
   symbolEntries (addMacroAsSymbol exampleServices (tokenAt ''X'' 1) (Some infoX) MacroDefinition
       emptyCollector) = [] \<and>
   sourceLocationEntries (addMacroAsSymbol exampleServices (tokenAt ''X'' 1) (Some infoX)
       MacroDefinition emptyCollector) =
     [\<lparr>symbolId = 7, entryFilePathId = 1, lineColumn = (1, 1), symbolType = MacroDefinition\<rparr>]"
proof -
  have a: "isFileID (getLocation (tokenAt ''X'' 1))" by (simp add: tokenAt_def)
  have b: "isValid exampleServices (locationFilePathId exampleServices (getLocation (tokenAt ''X'' 1)))"
    by (simp add: example_defs)
  have c: "map_find (symbolEntries emptyCollector) (toSymbolIndex infoX) = None"
    by (simp add: emptyCollector_def map_find_def)
  have d: "generateUSR exampleServices (getName (tokenAt ''X'' 1)) (getLocation (tokenAt ''X'' 1)) = None"
    by (simp add: example_defs)
  show ?thesis
    using d failed_generateUSR_keeps_occurrence [OF refl a b c d, of MacroDefinition]
    by (simp add: emptyCollector_def toSymbolIndex_def example_defs)
qed

text \<open>
  Claim C10: \<^verbatim>\<open>addMacroAsSymbol\<close> changes nothing unless the macro info is present, the
  location of the name token is a file location and the file id of that location is valid;
  when all three hold it appends one occurrence. The conditional tests and the expansion
  record the used define whatever these conditions are: the used-define vectors after the
  event are those of \<^verbatim>\<open>addUsedDefine\<close>, and hold the name of the token.
\<close>

theorem addMacroAsSymbol_conditions:
  "(\<not> (macroInfo \<noteq> None \<and> isFileID (getLocation t) \<and>
        isValid svc (locationFilePathId svc (getLocation t)))
      \<longrightarrow> addMacroAsSymbol svc t macroInfo ty s = s) \<and>
   (macroInfo \<noteq> None \<and> isFileID (getLocation t) \<and>
        isValid svc (locationFilePathId svc (getLocation t))
      \<longrightarrow> length (sourceLocationEntries (addMacroAsSymbol svc t macroInfo ty s)) =
            Suc (length (sourceLocationEntries s))) \<and>
   (ev \<in> {OnIfndef t d, OnIfdef t d, OnDefined t d, OnMacroExpands t d}
      \<longrightarrow> usedDefines (dispatch svc s ev) = usedDefines (addUsedDefine svc t d s) \<and>
          maybeUsedDefines (dispatch svc s ev) = maybeUsedDefines (addUsedDefine svc t d s) \<and>
          getName t \<in> defineName ` set (if definitionMacroInfo d = None
                                          then maybeUsedDefines (dispatch svc s ev)
                                          else usedDefines (dispatch svc s ev)))"
proof -
  have skipped: "addMacroAsSymbol svc t macroInfo ty s = s"
    if "\<not> (macroInfo \<noteq> None \<and> isFileID (getLocation t) \<and>
           isValid svc (locationFilePathId svc (getLocation t)))"
    using that by (auto simp: addMacroAsSymbol_def Let_def split: option.splits)
  have recorded: "length (sourceLocationEntries (addMacroAsSymbol svc t macroInfo ty s)) =
            Suc (length (sourceLocationEntries s))"
    if "macroInfo \<noteq> None \<and> isFileID (getLocation t) \<and>
        isValid svc (locationFilePathId svc (getLocation t))"
    using that by (auto simp: addMacroAsSymbol_def Let_def split: option.splits)
  have independent:
    "usedDefines (dispatch svc s ev) = usedDefines (addUsedDefine svc t d s) \<and>
     maybeUsedDefines (dispatch svc s ev) = maybeUsedDefines (addUsedDefine svc t d s)"
    if "ev \<in> {OnIfndef t d, OnIfdef t d, OnDefined t d, OnMacroExpands t d}"
    using that
    by (auto simp: Ifndef_def Ifdef_def Defined_def MacroExpands_def addMacroAsSymbol_defines)
  show ?thesis
    using skipped recorded independent addUsedDefine_records [of t d svc s]
    by (auto split: if_splits)
qed

text \<open>
  Claim C10 on an expansion of \<^verbatim>\<open>X\<close> whose name token lies inside a macro expansion (no
  occurrence, but the used define is recorded) and on one at a file location (one
  occurrence).
\<close>

theorem addMacroAsSymbol_conditions_witness:
  "\<not> isFileID (getLocation (tokenInExpansion ''X'' 5)) \<and>
   addMacroAsSymbol exampleServices (tokenInExpansion ''X'' 5) (Some infoX) MacroUsage emptyCollector =
     emptyCollector \<and>
   usedDefines (dispatch exampleServices emptyCollector
       (OnMacroExpands (tokenInExpansion ''X'' 5) (definedMacro infoX))) =
     [\<lparr>defineName = ''X'', filePathId = - 1\<rparr>] \<and>
   sourceLocationEntries (dispatch exampleServices emptyCollector
       (OnMacroExpands (tokenInExpansion ''X'' 5) (definedMacro infoX))) = [] \<and>
   length (sourceLocationEntries
       (addMacroAsSymbol exampleServices (tokenAt ''X'' 3) (Some infoX) MacroUsage emptyCollector)) =
     Suc (length (sourceLocationEntries emptyCollector))"
proof -
  let ?t = "tokenInExpansion ''X'' 5"
  let ?ev = "OnMacroExpands ?t (definedMacro infoX)"
  have inside: "\<not> isFileID (getLocation ?t)" by (simp add: tokenInExpansion_def)
  have infile: "Some infoX \<noteq> None \<and> isFileID (getLocation (tokenAt ''X'' 3)) \<and>
      isValid exampleServices (locationFilePathId exampleServices (getLocation (tokenAt ''X'' 3)))"
    by (simp add: example_defs)
  have skipped: "addMacroAsSymbol exampleServices ?t (Some infoX) MacroUsage emptyCollector = emptyCollector"
    using addMacroAsSymbol_conditions
      [of "Some infoX" ?t exampleServices MacroUsage emptyCollector ?ev "definedMacro infoX"] inside
    by blast
  have used: "usedDefines (dispatch exampleServices emptyCollector ?ev) =
      usedDefines (addUsedDefine exampleServices ?t (definedMacro infoX) emptyCollector)"
    using addMacroAsSymbol_conditions
      [of "Some infoX" ?t exampleServices MacroUsage emptyCollector ?ev "definedMacro infoX"]
    by blast
  have used': "usedDefines (addUsedDefine exampleServices ?t (definedMacro infoX) emptyCollector) =
      [\<lparr>defineName = ''X'', filePathId = - 1\<rparr>]"
    by (simp add: callback_defs example_defs)
  have nolog: "sourceLocationEntries (dispatch exampleServices emptyCollector ?ev) = []"
    by (simp add: callback_defs example_defs)
  have recorded: "length (sourceLocationEntries
       (addMacroAsSymbol exampleServices (tokenAt ''X'' 3) (Some infoX) MacroUsage emptyCollector)) =
     Suc (length (sourceLocationEntries emptyCollector))"
    using addMacroAsSymbol_conditions
      [of "Some infoX" "tokenAt ''X'' 3" exampleServices MacroUsage emptyCollector ?ev
          "definedMacro infoX"] infile
    by blast
  show ?thesis using inside skipped used used' nolog recorded by simp
qed

end
